theory Spec2Isabelle
  imports Main "HOL-Library.FSet"
begin

section \<open>Dialog enumeration of telethon/client/dialogs.py\<close>

text \<open>
  The theory embeds \<open>DialogMethods.iter_dialogs\<close> and \<open>DialogMethods.get_dialogs\<close>.
  The asynchronous generator is run to completion: the records it yields are collected,
  in order, in the field \<open>emitted\<close> of the state. The remote service is a function from
  the number of the call and the request to either a transport error or a page, so a
  service may answer the same request differently at different times.
\<close>

subsection \<open>Data\<close>

type_synonym peer_id = int
type_synonym timestamp = int

text \<open>
  Modelled from the spec: \<open>utils.get_peer_id\<close> is not part of the source file. It is a
  pure function of a peer reference or of a user/chat object, so each of these carries
  the PeerId it normalises to: \<open>ent_peer_id x\<close> is \<open>utils.get_peer_id(x)\<close> and
  \<open>peer d\<close> is \<open>utils.get_peer_id(d.peer)\<close>. \<open>migrated_to x\<close> is
  \<open>getattr(x, 'migrated_to', None)\<close>.
\<close>

record entity =
  ent_peer_id :: peer_id
  migrated_to :: "peer_id option"

datatype input_peer = InputPeerEmpty | InputPeerEntity entity

record message =
  msg_id :: int
  msg_date :: timestamp

record dialog =
  peer :: peer_id
  pinned :: bool
  top_message :: int
  pts :: "int option"

text \<open>
  A page. \<open>is_slice r\<close> is \<open>isinstance(r, types.messages.DialogsSlice)\<close>; \<open>count r\<close>
  is the attribute \<open>count\<close> when the response has one.
\<close>

record response =
  is_slice :: bool
  count :: "int option"
  dialogs :: "dialog list"
  messages :: "message list"
  users :: "entity list"
  chats :: "entity list"

text \<open>\<open>functions.messages.GetDialogsRequest\<close>; \<open>req_limit\<close> is its field \<open>limit\<close>.\<close>

record request =
  offset_date :: "timestamp option"
  offset_id :: int
  offset_peer :: input_peer
  req_limit :: int
  req_hash :: int
  exclude_pinned :: bool

datatype error = RpcError | IndexError | KeyError

type_synonym service = "nat \<Rightarrow> request \<Rightarrow> error + response"

text \<open>
  Modelled from the spec: the class \<open>custom.Dialog\<close> is not part of the source file.
  A DialogRecord is a DialogSummary joined with its resolved entity and, if present, its
  last message; a page that lacks the entity of a dialog is a malformed response, which
  is fatal. The record is filed in the channel-sync registry under the dialog's identity.
\<close>

record cdialog =
  cd_dialog :: dialog
  cd_entity :: entity
  cd_message :: "message option"

definition custom_Dialog ::
  "dialog \<Rightarrow> (peer_id \<rightharpoonup> entity) \<Rightarrow> (int \<rightharpoonup> message) \<Rightarrow> error + cdialog" where
  "custom_Dialog d entities msgs =
     (case entities (peer d) of
        None \<Rightarrow> Inl KeyError
      | Some e \<Rightarrow> Inr \<lparr>cd_dialog = d, cd_entity = e, cd_message = msgs (top_message d)\<rparr>)"

definition cd_id :: "cdialog \<Rightarrow> peer_id" where
  "cd_id cd = peer (cd_dialog cd)"

text \<open>
  The state of one enumeration: the local variables \<open>seen\<close> and \<open>req\<close>, the handle
  \<open>_total\<close> (\<open>None\<close> when the caller passed no handle or an empty list, \<open>Some v\<close> for a
  one-item list holding \<open>v\<close>), the client's \<open>_channel_pts\<close>, the records yielded so far
  and the requests sent so far.
\<close>

record state =
  seen :: "peer_id fset"
  req :: request
  total :: "int option"
  channel_pts :: "peer_id \<rightharpoonup> int"
  emitted :: "cdialog list"
  sent :: "request list"

datatype flow = Continue | Break | Raise error

datatype outcome = Unfinished | Returned | Raised error

subsection \<open>The steps of the loop\<close>

text \<open>\<open>limit\<close> after line 53: \<open>None\<close> is \<open>float('inf')\<close>, \<open>Some l\<close> is \<open>int(limit)\<close>.\<close>

fun below_limit :: "nat \<Rightarrow> int option \<Rightarrow> bool" where
  "below_limit n None = True"
| "below_limit n (Some l) = (int n < l)"

text \<open>Line 77: \<open>min(limit - len(seen), 100)\<close>.\<close>

fun page_size :: "int option \<Rightarrow> nat \<Rightarrow> int" where
  "page_size None n = 100"
| "page_size (Some l) n = min (l - int n) 100"

text \<open>Line 65 and line 81: \<open>getattr(r, 'count', len(r.dialogs))\<close>.\<close>

definition page_total :: "response \<Rightarrow> int" where
  "page_total r = (case count r of Some c \<Rightarrow> c | None \<Rightarrow> int (length (dialogs r)))"

definition store_total :: "response \<Rightarrow> state \<Rightarrow> state" where
  "store_total r s = (case total s of None \<Rightarrow> s | Some _ \<Rightarrow> s\<lparr>total := Some (page_total r)\<rparr>)"

text \<open>Lines 83 to 89: the two dictionaries of a page; a later entry replaces an earlier one.\<close>

definition entity_table :: "entity list \<Rightarrow> (peer_id \<rightharpoonup> entity)" where
  "entity_table xs = foldl (\<lambda>m x. m(ent_peer_id x \<mapsto> x)) Map.empty xs"

definition message_table :: "message list \<Rightarrow> (int \<rightharpoonup> message)" where
  "message_table ms = foldl (\<lambda>m x. m(msg_id x \<mapsto> x)) Map.empty ms"

text \<open>
  Lines 92 and 93: \<open>r.dialogs[:limit]\<close> when the page is longer than \<open>limit\<close>. A negative
  bound of a Python slice counts from the end of the list.
\<close>

fun truncate_dialogs :: "int option \<Rightarrow> dialog list \<Rightarrow> dialog list" where
  "truncate_dialogs None ds = ds"
| "truncate_dialogs (Some l) ds =
     (if int (length ds) > l
      then (if 0 \<le> l then take (nat l) ds else take (nat (int (length ds) + l)) ds)
      else ds)"

text \<open>Lines 96 to 105: one turn of the \<open>for\<close> loop.\<close>

definition record_pts :: "cdialog \<Rightarrow> state \<Rightarrow> state" where
  "record_pts cd s =
     (case pts (cd_dialog cd) of
        None \<Rightarrow> s
      | Some p \<Rightarrow> if p \<noteq> 0 then s\<lparr>channel_pts := (channel_pts s)(cd_id cd \<mapsto> p)\<rparr> else s)"

definition process_dialog ::
  "bool \<Rightarrow> (peer_id \<rightharpoonup> entity) \<Rightarrow> (int \<rightharpoonup> message) \<Rightarrow> dialog \<Rightarrow> state \<Rightarrow> state \<times> error option" where
  "process_dialog ignore_migrated entities msgs d s =
     (let peer_id = peer d in
      if peer_id |\<in>| seen s then (s, None)
      else
        let s1 = s\<lparr>seen := finsert peer_id (seen s)\<rparr> in
        case custom_Dialog d entities msgs of
          Inl e \<Rightarrow> (s1, Some e)
        | Inr cd \<Rightarrow>
            let s2 = record_pts cd s1 in
            if \<not> ignore_migrated \<or> migrated_to (cd_entity cd) = None
            then (s2\<lparr>emitted := emitted s2 @ [cd]\<rparr>, None)
            else (s2, None))"

fun process_dialogs ::
  "bool \<Rightarrow> (peer_id \<rightharpoonup> entity) \<Rightarrow> (int \<rightharpoonup> message) \<Rightarrow> dialog list \<Rightarrow> state \<Rightarrow> state \<times> error option" where
  "process_dialogs ignore_migrated entities msgs [] s = (s, None)"
| "process_dialogs ignore_migrated entities msgs (d # ds) s =
     (case process_dialog ignore_migrated entities msgs d s of
        (s', Some e) \<Rightarrow> (s', Some e)
      | (s', None) \<Rightarrow> process_dialogs ignore_migrated entities msgs ds s')"

text \<open>
  Lines 113 to 122: the next cursor. \<open>r.messages[-1]\<close> and \<open>r.dialogs[-1]\<close> raise
  IndexError on an empty list, \<open>entities[...]\<close> raises KeyError on a missing key; the
  fields assigned before the failing line keep their new values.
\<close>

definition advance_cursor ::
  "request \<Rightarrow> dialog list \<Rightarrow> message list \<Rightarrow> (peer_id \<rightharpoonup> entity) \<Rightarrow> request \<times> flow" where
  "advance_cursor rq ds ms entities =
     (if ms = [] then (rq, Raise IndexError)
      else
        let rq1 = rq\<lparr>offset_date := Some (msg_date (last ms))\<rparr> in
        if ds = [] then (rq1, Raise IndexError)
        else
          case entities (peer (last ds)) of
            None \<Rightarrow> (rq1, Raise KeyError)
          | Some e \<Rightarrow>
              let rq2 = rq1\<lparr>offset_peer := InputPeerEntity e\<rparr> in
              if offset_id rq2 = msg_id (last ms) then (rq2, Break)
              else (rq2\<lparr>offset_id := msg_id (last ms), exclude_pinned := True\<rparr>, Continue))"

text \<open>Lines 77 to 122: one turn of the \<open>while\<close> loop.\<close>

definition next_request :: "int option \<Rightarrow> state \<Rightarrow> request" where
  "next_request limit s = (req s)\<lparr>req_limit := page_size limit (fcard (seen s))\<rparr>"

definition after_page :: "int option \<Rightarrow> bool \<Rightarrow> response \<Rightarrow> state \<Rightarrow> state \<times> error option" where
  "after_page limit ignore_migrated r s =
     process_dialogs ignore_migrated
       (entity_table (users r @ chats r)) (message_table (messages r))
       (truncate_dialogs limit (dialogs r)) (store_total r s)"

definition body :: "service \<Rightarrow> int option \<Rightarrow> bool \<Rightarrow> state \<Rightarrow> state \<times> flow" where
  "body svc limit ignore_migrated s =
     (let rq = next_request limit s;
          s1 = s\<lparr>req := rq, sent := sent s @ [rq]\<rparr>
      in case svc (length (sent s)) rq of
           Inl e \<Rightarrow> (s1, Raise e)
         | Inr r \<Rightarrow>
             (case after_page limit ignore_migrated r s1 of
                (s2, Some e) \<Rightarrow> (s2, Raise e)
              | (s2, None) \<Rightarrow>
                  let ds = truncate_dialogs limit (dialogs r) in
                  if int (length ds) < req_limit rq \<or> \<not> is_slice r then (s2, Break)
                  else
                    (case advance_cursor (req s2) ds (messages r)
                            (entity_table (users r @ chats r)) of
                       (rq', fl) \<Rightarrow> (s2\<lparr>req := rq'\<rparr>, fl))))"

text \<open>
  Line 76: the \<open>while\<close> loop, run for at most the given number of turns. \<open>Unfinished\<close>
  says that the loop would go on.
\<close>

fun loop :: "nat \<Rightarrow> service \<Rightarrow> int option \<Rightarrow> bool \<Rightarrow> state \<Rightarrow> state \<times> outcome" where
  "loop 0 svc limit ignore_migrated s =
     (if below_limit (fcard (seen s)) limit then (s, Unfinished) else (s, Returned))"
| "loop (Suc n) svc limit ignore_migrated s =
     (if below_limit (fcard (seen s)) limit
      then (case body svc limit ignore_migrated s of
              (s', Continue) \<Rightarrow> loop n svc limit ignore_migrated s'
            | (s', Break) \<Rightarrow> (s', Returned)
            | (s', Raise e) \<Rightarrow> (s', Raised e))
      else (s, Returned))"

subsection \<open>The two entry points\<close>

definition GetDialogsRequest :: "timestamp option \<Rightarrow> int \<Rightarrow> input_peer \<Rightarrow> int \<Rightarrow> request" where
  "GetDialogsRequest od oid opeer lim =
     \<lparr>offset_date = od, offset_id = oid, offset_peer = opeer, req_limit = lim,
      req_hash = 0, exclude_pinned = False\<rparr>"

definition init_state ::
  "timestamp option \<Rightarrow> int \<Rightarrow> input_peer \<Rightarrow> int option \<Rightarrow> (peer_id \<rightharpoonup> int) \<Rightarrow> state" where
  "init_state od oid opeer tot cpts =
     \<lparr>seen = {||}, req = GetDialogsRequest od oid opeer 0, total = tot,
      channel_pts = cpts, emitted = [], sent = []\<rparr>"

definition iter_dialogs ::
  "nat \<Rightarrow> service \<Rightarrow> int option \<Rightarrow> timestamp option \<Rightarrow> int \<Rightarrow> input_peer \<Rightarrow> bool \<Rightarrow>
   int option \<Rightarrow> (peer_id \<rightharpoonup> int) \<Rightarrow> state \<times> outcome" where
  "iter_dialogs fuel svc limit od oid opeer ignore_migrated tot cpts =
     (let s0 = init_state od oid opeer tot cpts in
      if limit = Some 0 then
        (if tot = None then (s0, Returned)
         else
           let rq = GetDialogsRequest od oid opeer 1;
               s1 = s0\<lparr>sent := [rq]\<rparr>
           in case svc 0 rq of
                Inl e \<Rightarrow> (s1, Raised e)
              | Inr r \<Rightarrow> (s1\<lparr>total := Some (page_total r)\<rparr>, Returned))
      else loop fuel svc limit ignore_migrated s0)"


subsection \<open>The invariant of the Dedup Set\<close>

text \<open>
  The identities of the records yielded so far are pairwise different and all of them are
  in \<open>seen\<close>.
\<close>

definition dedup_inv :: "state \<Rightarrow> bool" where
  "dedup_inv s =
     (distinct (map cd_id (emitted s)) \<and> set (map cd_id (emitted s)) \<subseteq> fset (seen s))"

subsection \<open>Example pages and services\<close>

definition dlg :: "peer_id \<Rightarrow> dialog" where
  "dlg p = \<lparr>peer = p, pinned = False, top_message = p, pts = None\<rparr>"

definition usr :: "peer_id \<Rightarrow> entity" where
  "usr p = \<lparr>ent_peer_id = p, migrated_to = None\<rparr>"

definition migrated_chat :: "peer_id \<Rightarrow> peer_id \<Rightarrow> entity" where
  "migrated_chat p c = \<lparr>ent_peer_id = p, migrated_to = Some c\<rparr>"

definition msg :: "int \<Rightarrow> message" where
  "msg i = \<lparr>msg_id = i, msg_date = 1000 + i\<rparr>"

text \<open>A page with the dialogs of the given peers, their users and the given messages.\<close>

definition pg :: "bool \<Rightarrow> peer_id list \<Rightarrow> int list \<Rightarrow> response" where
  "pg sl ps ms =
     \<lparr>is_slice = sl, count = None, dialogs = map dlg ps, messages = map msg ms,
      users = map usr ps, chats = []\<rparr>"

text \<open>A service that answers its calls with the pages of a list, one after the other.\<close>

definition paged :: "response list \<Rightarrow> service" where
  "paged ps i rq = (if i < length ps then Inr (ps ! i) else Inl RpcError)"

text \<open>The pinned dialog 1 is sent again within the first page and on the second page.\<close>

definition pinned_pages :: "response list" where
  "pinned_pages = [pg True [1, 2, 1] [10, 20], pg True [1] [30], pg False [3] [40]]"

definition start :: state where
  "start = init_state None 0 InputPeerEmpty None Map.empty"




text \<open>
  A page with a migrated chat followed by a further page; a page shorter than asked for;
  a state whose cursor stands at message 20 already; a page without messages; a state
  that has seen peer 1, and a page whose last dialog is that peer without its entity;
  a page that carries a total.
\<close>

definition migrated_pages :: "response list" where
  "migrated_pages =
     [\<lparr>is_slice = True, count = None, dialogs = [dlg 1], messages = [msg 10],
       users = [], chats = [migrated_chat 1 (-100)]\<rparr>,
      pg True [2] [20]]"

definition short_page :: response where
  "short_page = pg True [1, 2] [10, 20]"

definition stuck_start :: state where
  "stuck_start = init_state None 20 InputPeerEmpty None Map.empty"

definition no_message_page :: response where
  "no_message_page = pg True [1, 2] []"

definition seen_start :: state where
  "seen_start = start\<lparr>seen := {|1|}\<rparr>"

definition unresolved_page :: response where
  "unresolved_page =
     \<lparr>is_slice = True, count = None, dialogs = [dlg 2, dlg 1], messages = [msg 10],
      users = [usr 2], chats = []\<rparr>"

definition counted_page :: response where
  "counted_page =
     \<lparr>is_slice = True, count = Some 500, dialogs = [dlg 1], messages = [msg 10],
      users = [usr 1], chats = []\<rparr>"

text \<open>A service that answers every call with the same page, and a page that repeats.\<close>

definition always :: "response \<Rightarrow> service" where
  "always r i rq = Inr r"

definition repeat_page :: response where
  "repeat_page = pg True [1, 2, 1] [10, 20]"

text \<open>The request after the assignments of lines 113 to 122.\<close>

definition next_cursor :: "request \<Rightarrow> message \<Rightarrow> entity \<Rightarrow> request" where
  "next_cursor rq m e =
     rq\<lparr>offset_date := Some (msg_date m), offset_peer := InputPeerEntity e,
        offset_id := msg_id m, exclude_pinned := True\<rparr>"

subsection \<open>The invariant of the handle\<close>





definition long_page :: response where
  "long_page = pg True [1, 2, 3] [10, 20, 30]"


text \<open>A complete page with the dialogs of the peers 0 to \<open>n - 1\<close> and their users.\<close>

definition numbered_page :: "nat \<Rightarrow> response" where
  "numbered_page n =
     \<lparr>is_slice = False, count = None, dialogs = map (\<lambda>k. dlg (int k)) [0..<n],
      messages = [], users = map (\<lambda>k. usr (int k)) [0..<n], chats = []\<rparr>"

section \<open>Properties\<close>

declare fcard_fempty [simp]

subsection \<open>What the steps leave unchanged\<close>

lemma custom_Dialog_id: "custom_Dialog d entities msgs = Inr cd \<Longrightarrow> cd_id cd = peer d"
  by (auto simp: custom_Dialog_def cd_id_def split: option.splits)

lemma record_pts_fields [simp]:
  "seen (record_pts cd s) = seen s" "emitted (record_pts cd s) = emitted s"
  "sent (record_pts cd s) = sent s" "req (record_pts cd s) = req s"
  "total (record_pts cd s) = total s"
  by (auto simp: record_pts_def split: option.splits)

lemma store_total_fields [simp]:
  "seen (store_total r s) = seen s" "emitted (store_total r s) = emitted s"
  "sent (store_total r s) = sent s" "req (store_total r s) = req s"
  "channel_pts (store_total r s) = channel_pts s"
  by (auto simp: store_total_def split: option.splits)

lemma process_dialog_keeps:
  "process_dialog ign entities msgs d s = (s', r) \<Longrightarrow>
     sent s' = sent s \<and> req s' = req s \<and> total s' = total s"
  by (auto simp: process_dialog_def Let_def split: sum.splits if_splits)

lemma process_dialogs_keeps:
  "process_dialogs ign entities msgs ds s = (s', r) \<Longrightarrow>
     sent s' = sent s \<and> req s' = req s \<and> total s' = total s"
proof (induction ds arbitrary: s)
  case Nil
  then show ?case by simp
next
  case (Cons d ds)
  obtain s1 r1 where p: "process_dialog ign entities msgs d s = (s1, r1)"
    by (cases "process_dialog ign entities msgs d s")
  note k = process_dialog_keeps [OF p]
  show ?case
  proof (cases r1)
    case None
    with Cons.prems p have "process_dialogs ign entities msgs ds s1 = (s', r)" by simp
    from Cons.IH [OF this] k show ?thesis by simp
  next
    case (Some e)
    with Cons.prems p have "s' = s1" by simp
    with k show ?thesis by simp
  qed
qed

lemma after_page_keeps:
  "after_page limit ign r s = (s', e) \<Longrightarrow>
     sent s' = sent s \<and> req s' = req s \<and> total s' = total (store_total r s)"
  unfolding after_page_def by (drule process_dialogs_keeps) simp

subsection \<open>The Dedup Set\<close>

lemma process_dialog_inv:
  "dedup_inv s \<Longrightarrow> dedup_inv (fst (process_dialog ign entities msgs d s))"
  by (auto simp: dedup_inv_def process_dialog_def Let_def custom_Dialog_id split: sum.splits)

lemma process_dialogs_inv:
  "dedup_inv s \<Longrightarrow> dedup_inv (fst (process_dialogs ign entities msgs ds s))"
proof (induction ds arbitrary: s)
  case Nil
  then show ?case by simp
next
  case (Cons d ds)
  obtain s' r where p: "process_dialog ign entities msgs d s = (s', r)"
    by (cases "process_dialog ign entities msgs d s")
  with Cons.prems process_dialog_inv [of s ign entities msgs d] have "dedup_inv s'" by simp
  with Cons.IH [of s'] p show ?case by (cases r) auto
qed

lemma after_page_inv:
  "dedup_inv s \<Longrightarrow> dedup_inv (fst (after_page limit ign r s))"
  unfolding after_page_def by (rule process_dialogs_inv) (simp add: dedup_inv_def)

lemma body_inv:
  assumes "dedup_inv s"
  shows "dedup_inv (fst (body svc limit ign s))"
proof -
  let ?rq = "next_request limit s"
  let ?s1 = "s\<lparr>req := ?rq, sent := sent s @ [?rq]\<rparr>"
  have s1: "dedup_inv ?s1" using assms by (simp add: dedup_inv_def)
  show ?thesis
  proof (cases "svc (length (sent s)) ?rq")
    case (Inl e)
    then show ?thesis using s1 by (simp add: body_def Let_def)
  next
    case (Inr r)
    obtain s2 e where ap: "after_page limit ign r ?s1 = (s2, e)"
      by (cases "after_page limit ign r ?s1")
    with after_page_inv [OF s1, of limit ign r] have s2: "dedup_inv s2" by simp
    then have "dedup_inv (s2\<lparr>req := rq'\<rparr>)" for rq' by (simp add: dedup_inv_def)
    with s2 Inr ap show ?thesis
      by (cases e) (auto simp: body_def Let_def split: prod.splits)
  qed
qed

lemma loop_inv:
  "dedup_inv s \<Longrightarrow> dedup_inv (fst (loop n svc limit ign s))"
proof (induction n arbitrary: s)
  case 0
  then show ?case by simp
next
  case (Suc n)
  obtain s' fl where b: "body svc limit ign s = (s', fl)"
    by (cases "body svc limit ign s")
  with body_inv [OF Suc.prems, of svc limit ign] have "dedup_inv s'" by simp
  with Suc.IH [of s'] b Suc.prems show ?case by (cases fl) auto
qed

lemma iter_dialogs_inv:
  "dedup_inv (fst (iter_dialogs n svc limit od oid opeer ign tot cpts))"
proof -
  have i: "dedup_inv (init_state od oid opeer tot cpts)"
    by (simp add: dedup_inv_def init_state_def)
  show ?thesis
  proof (cases "limit = Some 0")
    case True
    then show ?thesis using i
      by (auto simp: iter_dialogs_def Let_def dedup_inv_def init_state_def split: sum.splits)
  next
    case False
    then show ?thesis using loop_inv [OF i] by (simp add: iter_dialogs_def Let_def)
  qed
qed

text \<open>
  Claim C1. In every run of the enumeration, for any limit, any service and any number of
  turns of the loop, no PeerId occurs twice among the records yielded: a dialog whose
  PeerId is in the Dedup Set already is skipped.
\<close>

theorem emitted_peer_ids_distinct:
  "distinct (map (\<lambda>cd. peer (cd_dialog cd))
     (emitted (fst (iter_dialogs n svc limit od oid opeer ign tot cpts))))"
  using iter_dialogs_inv [of n svc limit od oid opeer ign tot cpts]
  by (simp add: dedup_inv_def cd_id_def [abs_def])

theorem emitted_peer_ids_distinct_witness:
  "distinct (map (\<lambda>cd. peer (cd_dialog cd))
     (emitted (fst (iter_dialogs 5 (paged pinned_pages) (Some 3) None 0 InputPeerEmpty False
        None Map.empty)))) \<and>
   map (\<lambda>cd. peer (cd_dialog cd))
     (emitted (fst (iter_dialogs 5 (paged pinned_pages) (Some 3) None 0 InputPeerEmpty False
        None Map.empty))) = [1, 2, 3] \<and>
   length (sent (fst (iter_dialogs 5 (paged pinned_pages) (Some 3) None 0 InputPeerEmpty False
        None Map.empty))) = 3"
proof -
  have "map (\<lambda>cd. peer (cd_dialog cd))
     (emitted (fst (iter_dialogs 5 (paged pinned_pages) (Some 3) None 0 InputPeerEmpty False
        None Map.empty))) = [1, 2, 3]"
    by code_simp
  moreover have "length (sent (fst (iter_dialogs 5 (paged pinned_pages) (Some 3) None 0
        InputPeerEmpty False None Map.empty))) = 3"
    by code_simp
  ultimately show ?thesis
    using emitted_peer_ids_distinct [of 5 "paged pinned_pages" "Some 3" None 0 InputPeerEmpty
        False None Map.empty]
    by simp
qed

text \<open>The skip itself: a dialog whose PeerId is in the Dedup Set changes nothing.\<close>

lemma process_dialog_seen:
  "peer d |\<in>| seen s \<Longrightarrow> process_dialog ign entities msgs d s = (s, None)"
  by (simp add: process_dialog_def)

subsection \<open>The filter \<open>ignore_migrated\<close>\<close>



subsection \<open>The Dedup Set and the channel-sync registry\<close>




subsection \<open>One turn of the loop\<close>

lemma req_limit_next [simp]: "req_limit (next_request limit s) = page_size limit (fcard (seen s))"
  by (simp add: next_request_def)

lemma offset_id_next [simp]: "offset_id (next_request limit s) = offset_id (req s)"
  by (simp add: next_request_def)

lemma page_size_pos: "below_limit k limit \<Longrightarrow> 1 \<le> page_size limit k \<and> page_size limit k \<le> 100"
  by (cases limit) auto

lemma truncate_length_lt:
  assumes "below_limit k limit"
  shows "int (length (truncate_dialogs limit ds)) < page_size limit k \<longleftrightarrow>
         int (length ds) < page_size limit k"
proof (cases limit)
  case None
  then show ?thesis by simp
next
  case (Some l)
  with assms have "int k < l" by simp
  then show ?thesis using Some by (auto simp: min_def)
qed

lemma truncate_under_guard:
  "below_limit k (Some l) \<Longrightarrow> truncate_dialogs (Some l) ds = take (nat l) ds"
  by auto

lemma truncate_nonempty:
  assumes "below_limit k limit" and "\<not> int (length ds) < page_size limit k"
  shows "truncate_dialogs limit ds \<noteq> []"
proof -
  from assms have "\<not> int (length (truncate_dialogs limit ds)) < page_size limit k"
    by (simp add: truncate_length_lt)
  with page_size_pos [OF assms(1)] show ?thesis by auto
qed

text \<open>The turn of the loop, case by case.\<close>

lemma body_rpc_error:
  "svc (length (sent s)) (next_request limit s) = Inl e \<Longrightarrow>
   body svc limit ign s =
     (s\<lparr>req := next_request limit s, sent := sent s @ [next_request limit s]\<rparr>, Raise e)"
  by (simp add: body_def Let_def)

lemma body_page_error:
  "svc (length (sent s)) (next_request limit s) = Inr r \<Longrightarrow>
   after_page limit ign r (s\<lparr>req := next_request limit s, sent := sent s @ [next_request limit s]\<rparr>)
     = (s2, Some e) \<Longrightarrow>
   body svc limit ign s = (s2, Raise e)"
  by (simp add: body_def Let_def)

lemma body_break:
  "svc (length (sent s)) (next_request limit s) = Inr r \<Longrightarrow>
   after_page limit ign r (s\<lparr>req := next_request limit s, sent := sent s @ [next_request limit s]\<rparr>)
     = (s2, None) \<Longrightarrow>
   int (length (truncate_dialogs limit (dialogs r))) < page_size limit (fcard (seen s)) \<or> \<not> is_slice r \<Longrightarrow>
   body svc limit ign s = (s2, Break)"
  by (simp add: body_def Let_def)

lemma body_advance:
  "svc (length (sent s)) (next_request limit s) = Inr r \<Longrightarrow>
   after_page limit ign r (s\<lparr>req := next_request limit s, sent := sent s @ [next_request limit s]\<rparr>)
     = (s2, None) \<Longrightarrow>
   \<not> int (length (truncate_dialogs limit (dialogs r))) < page_size limit (fcard (seen s)) \<Longrightarrow>
   is_slice r \<Longrightarrow>
   body svc limit ign s =
     (s2\<lparr>req := fst (advance_cursor (next_request limit s) (truncate_dialogs limit (dialogs r))
                     (messages r) (entity_table (users r @ chats r)))\<rparr>,
      snd (advance_cursor (next_request limit s) (truncate_dialogs limit (dialogs r))
                     (messages r) (entity_table (users r @ chats r))))"
proof -
  assume a: "svc (length (sent s)) (next_request limit s) = Inr r"
    and b: "after_page limit ign r (s\<lparr>req := next_request limit s, sent := sent s @ [next_request limit s]\<rparr>) = (s2, None)"
    and c: "\<not> int (length (truncate_dialogs limit (dialogs r))) < page_size limit (fcard (seen s))"
    and d: "is_slice r"
  from after_page_keeps [OF b] have "req s2 = next_request limit s" by simp
  with a b c d show ?thesis
    by (simp add: body_def Let_def split: prod.splits)
qed

lemma body_sent: "sent (fst (body svc limit ign s)) = sent s @ [next_request limit s]"
proof (cases "svc (length (sent s)) (next_request limit s)")
  case (Inl e)
  then show ?thesis by (simp add: body_rpc_error)
next
  case (Inr r)
  let ?s1 = "s\<lparr>req := next_request limit s, sent := sent s @ [next_request limit s]\<rparr>"
  obtain s2 e where ap: "after_page limit ign r ?s1 = (s2, e)" by (cases "after_page limit ign r ?s1")
  from after_page_keeps [OF ap] have k: "sent s2 = sent s @ [next_request limit s]" by simp
  show ?thesis
  proof (cases e)
    case (Some x)
    with Inr ap k show ?thesis by (simp add: body_page_error)
  next
    case None
    show ?thesis
    proof (cases "int (length (truncate_dialogs limit (dialogs r))) < page_size limit (fcard (seen s)) \<or> \<not> is_slice r")
      case True
      from ap None have ap': "after_page limit ign r ?s1 = (s2, None)" by simp
      from Inr ap' True have "body svc limit ign s = (s2, Break)" by (rule body_break)
      with k show ?thesis by simp
    next
      case False
      then have "\<not> int (length (truncate_dialogs limit (dialogs r))) < page_size limit (fcard (seen s))" "is_slice r"
        by simp_all
      note f = this
      from ap None have ap': "after_page limit ign r ?s1 = (s2, None)" by simp
      from body_advance [where svc = svc and s = s and limit = limit, OF Inr ap' f] k
      show ?thesis by simp
    qed
  qed
qed

lemma advance_cursor_flow:
  "snd (advance_cursor rq ds ms entities) =
     (if ms = [] then Raise IndexError
      else if ds = [] then Raise IndexError
      else if entities (peer (last ds)) = None then Raise KeyError
      else if offset_id rq = msg_id (last ms) then Break else Continue)"
  by (auto simp: advance_cursor_def Let_def split: option.splits)

lemma advance_cursor_offset_id:
  "snd (advance_cursor rq ds ms entities) = Continue \<Longrightarrow>
   offset_id (fst (advance_cursor rq ds ms entities)) = msg_id (last ms) \<and> ms \<noteq> [] \<and>
   exclude_pinned (fst (advance_cursor rq ds ms entities))"
  by (auto simp: advance_cursor_def Let_def split: option.splits if_splits)

lemma loop_sent: "\<exists>ws. sent (fst (loop n svc limit ign s)) = sent s @ ws"
proof (induction n arbitrary: s)
  case 0
  then show ?case by simp
next
  case (Suc n)
  show ?case
  proof (cases "below_limit (fcard (seen s)) limit")
    case False
    then show ?thesis by simp
  next
    case True
    obtain s' fl where b: "body svc limit ign s = (s', fl)" by (cases "body svc limit ign s")
    with body_sent [of svc limit ign s] have s': "sent s' = sent s @ [next_request limit s]" by simp
    show ?thesis
    proof (cases fl)
      case Continue
      from Suc.IH [of s'] obtain ws where "sent (fst (loop n svc limit ign s')) = sent s' @ ws" ..
      with True b Continue s' show ?thesis by simp
    next
      case Break
      with True b s' show ?thesis by simp
    next
      case (Raise e)
      with True b s' show ?thesis by simp
    qed
  qed
qed

lemma loop_first_request:
  assumes "below_limit (fcard (seen s)) limit"
  shows "take (Suc (length (sent s))) (sent (fst (loop (Suc n) svc limit ign s))) =
         sent s @ [next_request limit s]"
proof -
  obtain s' fl where b: "body svc limit ign s = (s', fl)" by (cases "body svc limit ign s")
  with body_sent [of svc limit ign s] have s': "sent s' = sent s @ [next_request limit s]" by simp
  from loop_sent [of n svc limit ign s'] obtain ws where
    w: "sent (fst (loop n svc limit ign s')) = sent s' @ ws" ..
  show ?thesis using assms b s' w by (cases fl) simp_all
qed

lemma dedup_inv_length: "dedup_inv s \<Longrightarrow> length (emitted s) \<le> fcard (seen s)"
proof -
  assume "dedup_inv s"
  then have d: "distinct (map cd_id (emitted s))" and sub: "set (map cd_id (emitted s)) \<subseteq> fset (seen s)"
    by (simp_all add: dedup_inv_def)
  from distinct_card [OF d] have "length (emitted s) = card (set (map cd_id (emitted s)))"
    by simp
  also from sub have "\<dots> \<le> card (fset (seen s))" by (intro card_mono) simp_all
  finally show ?thesis by (simp add: fcard.rep_eq)
qed

text \<open>A turn that goes on has stored the id of the last message; a turn that finds it stored does not go on.\<close>

lemma body_continue:
  assumes "body svc limit ign s = (s', Continue)"
  shows "\<exists>r. svc (length (sent s)) (next_request limit s) = Inr r \<and> messages r \<noteq> [] \<and>
             offset_id (req s') = msg_id (last (messages r))"
proof (cases "svc (length (sent s)) (next_request limit s)")
  case (Inl e)
  with assms show ?thesis by (simp add: body_rpc_error)
next
  case (Inr r)
  let ?s1 = "s\<lparr>req := next_request limit s, sent := sent s @ [next_request limit s]\<rparr>"
  let ?ds = "truncate_dialogs limit (dialogs r)"
  let ?ac = "advance_cursor (next_request limit s) ?ds (messages r) (entity_table (users r @ chats r))"
  obtain s2 e where ap: "after_page limit ign r ?s1 = (s2, e)" by (cases "after_page limit ign r ?s1")
  show ?thesis
  proof (cases e)
    case (Some x)
    with Inr ap have "body svc limit ign s = (s2, Raise x)" by (simp add: body_page_error)
    with assms show ?thesis by simp
  next
    case None
    with ap have ap': "after_page limit ign r ?s1 = (s2, None)" by simp
    show ?thesis
    proof (cases "int (length ?ds) < page_size limit (fcard (seen s)) \<or> \<not> is_slice r")
      case True
      from Inr ap' True have "body svc limit ign s = (s2, Break)" by (rule body_break)
      with assms show ?thesis by simp
    next
      case False
      then have f: "\<not> int (length ?ds) < page_size limit (fcard (seen s))" "is_slice r"
        by simp_all
      from Inr ap' f have "body svc limit ign s = (s2\<lparr>req := fst ?ac\<rparr>, snd ?ac)"
        by (rule body_advance)
      with assms have c: "snd ?ac = Continue" and s': "s' = s2\<lparr>req := fst ?ac\<rparr>" by simp_all
      from advance_cursor_offset_id [OF c] s' Inr show ?thesis by simp
    qed
  qed
qed

lemma body_stuck:
  assumes "svc (length (sent s)) (next_request limit s) = Inr r"
    and "messages r \<noteq> []" and "msg_id (last (messages r)) = offset_id (req s)"
  shows "snd (body svc limit ign s) \<noteq> Continue"
proof
  assume c: "snd (body svc limit ign s) = Continue"
  let ?s1 = "s\<lparr>req := next_request limit s, sent := sent s @ [next_request limit s]\<rparr>"
  let ?ds = "truncate_dialogs limit (dialogs r)"
  let ?ac = "advance_cursor (next_request limit s) ?ds (messages r) (entity_table (users r @ chats r))"
  obtain s2 e where ap: "after_page limit ign r ?s1 = (s2, e)" by (cases "after_page limit ign r ?s1")
  show False
  proof (cases e)
    case (Some x)
    with assms(1) ap have "body svc limit ign s = (s2, Raise x)" by (simp add: body_page_error)
    with c show False by simp
  next
    case None
    with ap have ap': "after_page limit ign r ?s1 = (s2, None)" by simp
    show False
    proof (cases "int (length ?ds) < page_size limit (fcard (seen s)) \<or> \<not> is_slice r")
      case True
      from assms(1) ap' True have "body svc limit ign s = (s2, Break)" by (rule body_break)
      with c show False by simp
    next
      case False
      then have f: "\<not> int (length ?ds) < page_size limit (fcard (seen s))" "is_slice r"
        by simp_all
      from assms(1) ap' f have "body svc limit ign s = (s2\<lparr>req := fst ?ac\<rparr>, snd ?ac)"
        by (rule body_advance)
      with c have "snd ?ac = Continue" by simp
      with assms(2,3) show False by (simp add: advance_cursor_flow split: if_splits)
    qed
  qed
qed

lemma loop_one_turn:
  assumes "snd (body svc limit ign s) \<noteq> Continue"
  shows "snd (loop (Suc n) svc limit ign s) \<noteq> Unfinished \<and>
         length (sent (fst (loop (Suc n) svc limit ign s))) \<le> Suc (length (sent s))"
proof (cases "below_limit (fcard (seen s)) limit")
  case False
  then show ?thesis by simp
next
  case True
  obtain s' fl where b: "body svc limit ign s = (s', fl)" by (cases "body svc limit ign s")
  with body_sent [of svc limit ign s] have "sent s' = sent s @ [next_request limit s]" by simp
  with assms b True show ?thesis by (cases fl) simp_all
qed

lemma repeating_page_ends:
  assumes "\<forall>rq. svc (length (sent s)) rq = Inr r1"
    and "\<forall>rq. svc (Suc (length (sent s))) rq = Inr r2"
    and "messages r1 \<noteq> []" and "messages r2 \<noteq> []"
    and "msg_id (last (messages r2)) = msg_id (last (messages r1))"
  shows "snd (loop (Suc (Suc n)) svc limit ign s) \<noteq> Unfinished \<and>
         length (sent (fst (loop (Suc (Suc n)) svc limit ign s))) \<le> length (sent s) + 2"
proof (cases "below_limit (fcard (seen s)) limit")
  case False
  then show ?thesis by simp
next
  case g: True
  show ?thesis
  proof (cases "snd (body svc limit ign s) = Continue")
    case False
    from loop_one_turn [OF False, of "Suc n"] show ?thesis by simp
  next
    case True
    obtain s' where b: "body svc limit ign s = (s', Continue)"
      using True by (cases "body svc limit ign s") simp
    from body_sent [of svc limit ign s] b have se: "sent s' = sent s @ [next_request limit s]"
      by simp
    from body_continue [OF b] assms(1) have o: "offset_id (req s') = msg_id (last (messages r1))"
      by auto
    from assms(2) se have sv: "svc (length (sent s')) (next_request limit s') = Inr r2" by simp
    from assms(5) o have "msg_id (last (messages r2)) = offset_id (req s')" by simp
    with sv assms(4) have "snd (body svc limit ign s') \<noteq> Continue" by (rule body_stuck)
    from loop_one_turn [OF this, of n] se
    have "snd (loop (Suc n) svc limit ign s') \<noteq> Unfinished \<and>
          length (sent (fst (loop (Suc n) svc limit ign s'))) \<le> length (sent s) + 2" by simp
    moreover from g b have "loop (Suc (Suc n)) svc limit ign s = loop (Suc n) svc limit ign s'"
      by (simp del: loop.simps add: loop.simps(2) [of "Suc n" svc limit ign s])
    ultimately show ?thesis by simp
  qed
qed

lemma advance_cursor_continue:
  "ms \<noteq> [] \<Longrightarrow> ds \<noteq> [] \<Longrightarrow> entities (peer (last ds)) = Some e \<Longrightarrow>
   offset_id rq \<noteq> msg_id (last ms) \<Longrightarrow>
   advance_cursor rq ds ms entities = (next_cursor rq (last ms) e, Continue)"
  by (simp add: advance_cursor_def next_cursor_def Let_def)

lemma loop_continues:
  assumes "below_limit (fcard (seen s)) limit"
    and "svc (length (sent s)) (next_request limit s) = Inr r"
    and "after_page limit ign r
           (s\<lparr>req := next_request limit s, sent := sent s @ [next_request limit s]\<rparr>) = (s2, None)"
    and "\<not> int (length (dialogs r)) < page_size limit (fcard (seen s))" and "is_slice r"
    and "messages r \<noteq> []"
    and "entity_table (users r @ chats r) (peer (last (truncate_dialogs limit (dialogs r)))) = Some e"
    and "msg_id (last (messages r)) \<noteq> offset_id (req s)"
  shows "loop (Suc n) svc limit ign s =
         loop n svc limit ign (s2\<lparr>req := next_cursor (next_request limit s) (last (messages r)) e\<rparr>)"
proof -
  let ?ds = "truncate_dialogs limit (dialogs r)"
  let ?ac = "advance_cursor (next_request limit s) ?ds (messages r) (entity_table (users r @ chats r))"
  from assms(1,4) have full: "\<not> int (length ?ds) < page_size limit (fcard (seen s))"
    by (simp add: truncate_length_lt)
  from truncate_nonempty [OF assms(1,4)] have ne: "?ds \<noteq> []" .
  from assms(2,3) full assms(5)
  have b: "body svc limit ign s = (s2\<lparr>req := fst ?ac\<rparr>, snd ?ac)" by (rule body_advance)
  from assms(8) have "offset_id (next_request limit s) \<noteq> msg_id (last (messages r))" by simp
  with assms(6) ne assms(7)
  have "?ac = (next_cursor (next_request limit s) (last (messages r)) e, Continue)"
    by (rule advance_cursor_continue)
  with b assms(1) show ?thesis by simp
qed

text \<open>The fields of the example states.\<close>

lemma after_page_pair:
  "snd (after_page limit ign r s) = None \<Longrightarrow>
   after_page limit ign r s = (fst (after_page limit ign r s), None)"
  by (simp add: prod_eq_iff)

lemma start_fields:
  "seen start = {||}" "sent start = []" "emitted start = []"
  "total start = None" "req start = GetDialogsRequest None 0 InputPeerEmpty 0"
  by (simp_all add: start_def init_state_def)

lemma stuck_start_fields:
  "seen stuck_start = {||}" "sent stuck_start = []" "offset_id (req stuck_start) = 20"
  by (simp_all add: stuck_start_def init_state_def GetDialogsRequest_def)

lemma seen_start_fields:
  "seen seen_start = {|1|}" "sent seen_start = []"
  by (simp_all add: seen_start_def start_fields)

lemma always_fields: "always r i rq = Inr r"
  by (simp add: always_def)

lemma repeat_page_fields:
  "is_slice repeat_page" "messages repeat_page \<noteq> []" "length (dialogs repeat_page) = 3"
  "msg_id (last (messages repeat_page)) = 20"
  "entity_table (users repeat_page @ chats repeat_page)
     (peer (last (truncate_dialogs (Some 3) (dialogs repeat_page)))) = Some (usr 1)"
  by (simp_all add: repeat_page_def pg_def msg_def entity_table_def dlg_def usr_def)

subsection \<open>The end of the enumeration\<close>

text \<open>
  Claim C5. In a state in which the loop runs, when the page fetched is processed without
  error and has fewer dialogs than the page size asked for, or is not a
  \<open>DialogsSlice\<close>, the loop returns after this page: exactly one request is added to
  the requests sent, whatever the number of records yielded so far.
\<close>

theorem short_or_complete_page_stops:
  assumes "below_limit (fcard (seen s)) limit"
    and "svc (length (sent s)) (next_request limit s) = Inr r"
    and "after_page limit ign r
           (s\<lparr>req := next_request limit s, sent := sent s @ [next_request limit s]\<rparr>) = (s2, None)"
    and "int (length (dialogs r)) < page_size limit (fcard (seen s)) \<or> \<not> is_slice r"
  shows "loop (Suc n) svc limit ign s = (s2, Returned) \<and>
         sent s2 = sent s @ [next_request limit s]"
proof -
  from assms(4) have "int (length (truncate_dialogs limit (dialogs r))) < page_size limit (fcard (seen s)) \<or> \<not> is_slice r"
    by (simp add: truncate_length_lt [OF assms(1)])
  with assms(2) assms(3) have "body svc limit ign s = (s2, Break)" by (rule body_break)
  with assms(1) have "loop (Suc n) svc limit ign s = (s2, Returned)" by simp
  moreover from after_page_keeps [OF assms(3)] have "sent s2 = sent s @ [next_request limit s]" by simp
  ultimately show ?thesis by simp
qed

theorem short_or_complete_page_stops_witness:
  "below_limit (fcard (seen start)) (Some 5) \<and>
   paged [short_page] (length (sent start)) (next_request (Some 5) start) = Inr short_page \<and>
   int (length (dialogs short_page)) < page_size (Some 5) (fcard (seen start)) \<and>
   snd (loop 3 (paged [short_page]) (Some 5) False start) = Returned \<and>
   length (sent (fst (loop 3 (paged [short_page]) (Some 5) False start))) = 1 \<and>
   length (emitted (fst (loop 3 (paged [short_page]) (Some 5) False start))) = 2"
proof -
  let ?s1 = "start\<lparr>req := next_request (Some 5) start, sent := sent start @ [next_request (Some 5) start]\<rparr>"
  have h1: "below_limit (fcard (seen start)) (Some 5)"
    by (simp add: start_fields)
  have h2: "paged [short_page] (length (sent start)) (next_request (Some 5) start) = Inr short_page"
    by (simp add: paged_def start_fields)
  have "snd (after_page (Some 5) False short_page ?s1) = None"
    by code_simp
  then have h3: "after_page (Some 5) False short_page ?s1 =
      (fst (after_page (Some 5) False short_page ?s1), None)"
    by (rule after_page_pair)
  have h4: "int (length (dialogs short_page)) < page_size (Some 5) (fcard (seen start))"
    by (simp add: short_page_def pg_def start_fields)
  then have h4': "int (length (dialogs short_page)) < page_size (Some 5) (fcard (seen start)) \<or> \<not> is_slice short_page"
    by simp
  have e: "length (emitted (fst (after_page (Some 5) False short_page ?s1))) = 2"
    by code_simp
  have s: "sent start = []" by (simp add: start_fields)
  from short_or_complete_page_stops [where svc = "paged [short_page]" and n = 2, OF h1 h2 h3 h4']
  show ?thesis using h1 h2 h4 e s by (simp add: eval_nat_numeral)
qed

text \<open>
  Claim C4. In a state in which the loop runs, when the page fetched passes the two
  checks of line 107, has a last message and the entity of its last dialog, and the id of
  its last message equals the \<open>offset_id\<close> of the request, the loop returns after this
  page: exactly one request is added to the requests sent. Hence, when the service
  answers two calls in a row with pages whose last messages have the same id, the loop has
  ended after at most these two requests, for every number of turns allowed: a turn that
  goes on stores the id, and the next turn finds it.
\<close>

theorem stuck_cursor_stops:
  "(below_limit (fcard (seen s)) limit \<and>
    svc (length (sent s)) (next_request limit s) = Inr r \<and>
    after_page limit ign r
      (s\<lparr>req := next_request limit s, sent := sent s @ [next_request limit s]\<rparr>) = (s2, None) \<and>
    \<not> int (length (dialogs r)) < page_size limit (fcard (seen s)) \<and> is_slice r \<and>
    messages r \<noteq> [] \<and>
    entity_table (users r @ chats r) (peer (last (truncate_dialogs limit (dialogs r)))) = Some e \<and>
    msg_id (last (messages r)) = offset_id (req s) \<longrightarrow>
      snd (loop (Suc n) svc limit ign s) = Returned \<and>
      sent (fst (loop (Suc n) svc limit ign s)) = sent s @ [next_request limit s]) \<and>
   ((\<forall>rq. svc (length (sent s)) rq = Inr r1) \<and>
    (\<forall>rq. svc (Suc (length (sent s))) rq = Inr r2) \<and>
    messages r1 \<noteq> [] \<and> messages r2 \<noteq> [] \<and>
    msg_id (last (messages r2)) = msg_id (last (messages r1)) \<longrightarrow>
      snd (loop (Suc (Suc n)) svc limit ign s) \<noteq> Unfinished \<and>
      length (sent (fst (loop (Suc (Suc n)) svc limit ign s))) \<le> length (sent s) + 2)"
proof -
  have a: "snd (loop (Suc n) svc limit ign s) = Returned \<and>
      sent (fst (loop (Suc n) svc limit ign s)) = sent s @ [next_request limit s]"
    if h: "below_limit (fcard (seen s)) limit"
      "svc (length (sent s)) (next_request limit s) = Inr r"
      "after_page limit ign r
        (s\<lparr>req := next_request limit s, sent := sent s @ [next_request limit s]\<rparr>) = (s2, None)"
      "\<not> int (length (dialogs r)) < page_size limit (fcard (seen s))" "is_slice r"
      "messages r \<noteq> []"
      "entity_table (users r @ chats r) (peer (last (truncate_dialogs limit (dialogs r)))) = Some e"
      "msg_id (last (messages r)) = offset_id (req s)"
  proof -
    let ?ds = "truncate_dialogs limit (dialogs r)"
    let ?ac = "advance_cursor (next_request limit s) ?ds (messages r) (entity_table (users r @ chats r))"
    from h(1,4) have full: "\<not> int (length ?ds) < page_size limit (fcard (seen s))"
      by (simp add: truncate_length_lt)
    from truncate_nonempty [OF h(1,4)] have ne: "?ds \<noteq> []" .
    from h(2,3) full h(5)
    have b: "body svc limit ign s = (s2\<lparr>req := fst ?ac\<rparr>, snd ?ac)" by (rule body_advance)
    have "snd ?ac = Break"
      using h(6,7,8) ne by (simp add: advance_cursor_flow)
    with b h(1) have "loop (Suc n) svc limit ign s = (s2\<lparr>req := fst ?ac\<rparr>, Returned)" by simp
    moreover from after_page_keeps [OF h(3)] have "sent s2 = sent s @ [next_request limit s]"
      by simp
    ultimately show ?thesis by simp
  qed
  have b: "snd (loop (Suc (Suc n)) svc limit ign s) \<noteq> Unfinished \<and>
      length (sent (fst (loop (Suc (Suc n)) svc limit ign s))) \<le> length (sent s) + 2"
    if "\<forall>rq. svc (length (sent s)) rq = Inr r1" "\<forall>rq. svc (Suc (length (sent s))) rq = Inr r2"
      "messages r1 \<noteq> []" "messages r2 \<noteq> []"
      "msg_id (last (messages r2)) = msg_id (last (messages r1))"
    using that by (rule repeating_page_ends)
  from a b show ?thesis by blast
qed

theorem stuck_cursor_stops_witness:
  "below_limit (fcard (seen stuck_start)) (Some 3) \<and>
   always repeat_page (length (sent stuck_start)) (next_request (Some 3) stuck_start)
     = Inr repeat_page \<and>
   \<not> int (length (dialogs repeat_page)) < page_size (Some 3) (fcard (seen stuck_start)) \<and>
   is_slice repeat_page \<and> messages repeat_page \<noteq> [] \<and>
   msg_id (last (messages repeat_page)) = offset_id (req stuck_start) \<and>
   snd (loop 8 (always repeat_page) (Some 3) False stuck_start) = Returned \<and>
   length (sent (fst (loop 8 (always repeat_page) (Some 3) False stuck_start))) = 1 \<and>
   fcard (seen (fst (loop 8 (always repeat_page) (Some 3) False stuck_start))) = 2 \<and>
   snd (body (always repeat_page) (Some 3) False start) = Continue \<and>
   snd (loop 8 (always repeat_page) (Some 3) False start) = Returned \<and>
   length (sent (fst (loop 8 (always repeat_page) (Some 3) False start))) = 2 \<and>
   fcard (seen (fst (loop 8 (always repeat_page) (Some 3) False start))) = 2"
proof -
  let ?s1 = "stuck_start\<lparr>req := next_request (Some 3) stuck_start,
    sent := sent stuck_start @ [next_request (Some 3) stuck_start]\<rparr>"
  have h1: "below_limit (fcard (seen stuck_start)) (Some 3)"
    by (simp add: stuck_start_fields)
  have h2: "always repeat_page (length (sent stuck_start)) (next_request (Some 3) stuck_start)
      = Inr repeat_page"
    by (rule always_fields)
  have "snd (after_page (Some 3) False repeat_page ?s1) = None"
    by code_simp
  then have h3: "after_page (Some 3) False repeat_page ?s1 =
      (fst (after_page (Some 3) False repeat_page ?s1), None)"
    by (rule after_page_pair)
  have h4: "\<not> int (length (dialogs repeat_page)) < page_size (Some 3) (fcard (seen stuck_start))"
    by (simp add: repeat_page_fields stuck_start_fields)
  note h5 = repeat_page_fields(1) and h6 = repeat_page_fields(2) and h7 = repeat_page_fields(5)
  have h8: "msg_id (last (messages repeat_page)) = offset_id (req stuck_start)"
    by (simp add: repeat_page_fields stuck_start_fields)
  have g1: "\<forall>rq. always repeat_page (length (sent start)) rq = Inr repeat_page"
    and g2: "\<forall>rq. always repeat_page (Suc (length (sent start))) rq = Inr repeat_page"
    by (simp_all add: always_fields)
  have e1: "fcard (seen (fst (loop 8 (always repeat_page) (Some 3) False stuck_start))) = 2"
    by code_simp
  have e2: "snd (body (always repeat_page) (Some 3) False start) = Continue"
    by code_simp
  have e3: "snd (loop 8 (always repeat_page) (Some 3) False start) = Returned"
    by code_simp
  have e4: "length (sent (fst (loop 8 (always repeat_page) (Some 3) False start))) = 2"
    by code_simp
  have e5: "fcard (seen (fst (loop 8 (always repeat_page) (Some 3) False start))) = 2"
    by code_simp
  from stuck_cursor_stops [where svc = "always repeat_page" and s = stuck_start
      and limit = "Some 3" and ign = False and r = repeat_page and e = "usr 1" and n = 7
      and ?s2.0 = "fst (after_page (Some 3) False repeat_page ?s1)"]
    h1 h2 h3 h4 h5 h6 h7 h8
  have a: "snd (loop (Suc 7) (always repeat_page) (Some 3) False stuck_start) = Returned \<and>
      sent (fst (loop (Suc 7) (always repeat_page) (Some 3) False stuck_start)) =
        sent stuck_start @ [next_request (Some 3) stuck_start]"
    by blast
  from stuck_cursor_stops [where svc = "always repeat_page" and s = start
      and limit = "Some 3" and ign = False and ?r1.0 = repeat_page and ?r2.0 = repeat_page
      and n = 6] g1 g2 h6
  have b: "snd (loop (Suc (Suc 6)) (always repeat_page) (Some 3) False start) \<noteq> Unfinished \<and>
      length (sent (fst (loop (Suc (Suc 6)) (always repeat_page) (Some 3) False start)))
        \<le> length (sent start) + 2"
    by blast
  have n8: "Suc 7 = 8" "Suc (Suc 6) = 8" by simp_all
  from a b show ?thesis
    using h1 h2 h4 h5 h6 h8 e1 e2 e3 e4 e5
    by (simp only: n8 stuck_start_fields list.size append_Nil) simp
qed

text \<open>
  Claim C10. For a page that passes the two checks of line 107 the list of dialogs is not
  empty, and the cursor update succeeds exactly when the page has a message and the
  entity of its last dialog: without a message the enumeration raises IndexError, with a
  message and without the entity it raises KeyError.
\<close>

theorem cursor_update_partial:
  assumes "below_limit (fcard (seen s)) limit"
    and "svc (length (sent s)) (next_request limit s) = Inr r"
    and "after_page limit ign r
           (s\<lparr>req := next_request limit s, sent := sent s @ [next_request limit s]\<rparr>) = (s2, None)"
    and "\<not> int (length (dialogs r)) < page_size limit (fcard (seen s))" and "is_slice r"
  shows "truncate_dialogs limit (dialogs r) \<noteq> [] \<and>
         snd (body svc limit ign s) =
           (if messages r = [] then Raise IndexError
            else if entity_table (users r @ chats r)
                      (peer (last (truncate_dialogs limit (dialogs r)))) = None then Raise KeyError
            else if offset_id (req s) = msg_id (last (messages r)) then Break else Continue) \<and>
         (messages r = [] \<longrightarrow> snd (loop (Suc n) svc limit ign s) = Raised IndexError) \<and>
         (messages r \<noteq> [] \<and> entity_table (users r @ chats r)
             (peer (last (truncate_dialogs limit (dialogs r)))) = None \<longrightarrow>
            snd (loop (Suc n) svc limit ign s) = Raised KeyError)"
proof -
  let ?ds = "truncate_dialogs limit (dialogs r)"
  let ?ac = "advance_cursor (next_request limit s) ?ds (messages r) (entity_table (users r @ chats r))"
  from assms(1,4) have full: "\<not> int (length ?ds) < page_size limit (fcard (seen s))"
    by (simp add: truncate_length_lt)
  from truncate_nonempty [OF assms(1,4)] have ne: "?ds \<noteq> []" .
  from assms(2,3) full assms(5)
  have b: "body svc limit ign s = (s2\<lparr>req := fst ?ac\<rparr>, snd ?ac)" by (rule body_advance)
  have fl: "snd (body svc limit ign s) =
           (if messages r = [] then Raise IndexError
            else if entity_table (users r @ chats r) (peer (last ?ds)) = None then Raise KeyError
            else if offset_id (req s) = msg_id (last (messages r)) then Break else Continue)"
    using b ne by (simp add: advance_cursor_flow)
  have l: "snd (loop (Suc n) svc limit ign s) = Raised x" if "snd (body svc limit ign s) = Raise x" for x
    using that assms(1) by (cases "body svc limit ign s") simp
  from fl have "messages r = [] \<Longrightarrow> snd (body svc limit ign s) = Raise IndexError" by simp
  then have i: "messages r = [] \<Longrightarrow> snd (loop (Suc n) svc limit ign s) = Raised IndexError" by (rule l)
  from fl have "messages r \<noteq> [] \<Longrightarrow> entity_table (users r @ chats r) (peer (last ?ds)) = None \<Longrightarrow> snd (body svc limit ign s) = Raise KeyError" by simp
  then have k: "messages r \<noteq> [] \<Longrightarrow> entity_table (users r @ chats r) (peer (last ?ds)) = None \<Longrightarrow> snd (loop (Suc n) svc limit ign s) = Raised KeyError" by (rule l)
  from ne fl i k show ?thesis by blast
qed

theorem cursor_update_partial_witness:
  "below_limit (fcard (seen start)) (Some 2) \<and>
   paged [no_message_page] (length (sent start)) (next_request (Some 2) start)
     = Inr no_message_page \<and>
   \<not> int (length (dialogs no_message_page)) < page_size (Some 2) (fcard (seen start)) \<and>
   is_slice no_message_page \<and> messages no_message_page = [] \<and>
   snd (loop 3 (paged [no_message_page]) (Some 2) False start) = Raised IndexError \<and>
   below_limit (fcard (seen seen_start)) (Some 3) \<and>
   paged [unresolved_page] (length (sent seen_start)) (next_request (Some 3) seen_start)
     = Inr unresolved_page \<and>
   \<not> int (length (dialogs unresolved_page)) < page_size (Some 3) (fcard (seen seen_start)) \<and>
   is_slice unresolved_page \<and> messages unresolved_page \<noteq> [] \<and>
   entity_table (users unresolved_page @ chats unresolved_page)
     (peer (last (truncate_dialogs (Some 3) (dialogs unresolved_page)))) = None \<and>
   snd (loop 3 (paged [unresolved_page]) (Some 3) False seen_start) = Raised KeyError"
proof -
  let ?s1 = "start\<lparr>req := next_request (Some 2) start,
    sent := sent start @ [next_request (Some 2) start]\<rparr>"
  let ?t1 = "seen_start\<lparr>req := next_request (Some 3) seen_start,
    sent := sent seen_start @ [next_request (Some 3) seen_start]\<rparr>"
  have h1: "below_limit (fcard (seen start)) (Some 2)"
    by (simp add: start_fields)
  have h2: "paged [no_message_page] (length (sent start)) (next_request (Some 2) start)
      = Inr no_message_page"
    by (simp add: paged_def start_fields)
  have "snd (after_page (Some 2) False no_message_page ?s1) = None"
    by code_simp
  then have h3: "after_page (Some 2) False no_message_page ?s1 =
      (fst (after_page (Some 2) False no_message_page ?s1), None)"
    by (rule after_page_pair)
  have h4: "\<not> int (length (dialogs no_message_page)) < page_size (Some 2) (fcard (seen start))"
    by (simp add: no_message_page_def pg_def start_fields)
  have h5: "is_slice no_message_page" by (simp add: no_message_page_def pg_def)
  have h6: "messages no_message_page = []" by (simp add: no_message_page_def pg_def)
  have g1: "below_limit (fcard (seen seen_start)) (Some 3)"
    by (simp add: seen_start_fields fcard_finsert_if)
  have g2: "paged [unresolved_page] (length (sent seen_start)) (next_request (Some 3) seen_start)
      = Inr unresolved_page"
    by (simp add: paged_def seen_start_fields)
  have "snd (after_page (Some 3) False unresolved_page ?t1) = None"
    by code_simp
  then have g3: "after_page (Some 3) False unresolved_page ?t1 =
      (fst (after_page (Some 3) False unresolved_page ?t1), None)"
    by (rule after_page_pair)
  have g4: "\<not> int (length (dialogs unresolved_page)) < page_size (Some 3) (fcard (seen seen_start))"
    by (simp add: unresolved_page_def seen_start_fields fcard_finsert_if)
  have g5: "is_slice unresolved_page" by (simp add: unresolved_page_def)
  have g6: "messages unresolved_page \<noteq> []" by (simp add: unresolved_page_def)
  have g7: "entity_table (users unresolved_page @ chats unresolved_page)
     (peer (last (truncate_dialogs (Some 3) (dialogs unresolved_page)))) = None"
    by (simp add: unresolved_page_def entity_table_def dlg_def usr_def)
  from cursor_update_partial [where svc = "paged [no_message_page]" and n = 2,
      OF h1 h2 h3 h4 h5]
    cursor_update_partial [where svc = "paged [unresolved_page]" and n = 2,
      OF g1 g2 g3 g4 g5]
  show ?thesis using h1 h2 h4 h5 h6 g1 g2 g4 g5 g6 g7 by (simp add: eval_nat_numeral)
qed

subsection \<open>The limit\<close>

text \<open>
  Claim C6. With \<open>limit = 0\<close> and no handle the enumeration returns without a request
  and yields nothing. With a handle it sends exactly one request, of size 1 with the
  caller's offsets; when the service answers with a page, the total of the page is
  written to the handle, nothing is yielded and the enumeration returns.
\<close>

theorem limit_zero_probe:
  "snd (iter_dialogs n svc (Some 0) od oid opeer ign None cpts) = Returned \<and>
   sent (fst (iter_dialogs n svc (Some 0) od oid opeer ign None cpts)) = [] \<and>
   emitted (fst (iter_dialogs n svc (Some 0) od oid opeer ign None cpts)) = [] \<and>
   (svc 0 \<lparr>offset_date = od, offset_id = oid, offset_peer = opeer, req_limit = 1,
            req_hash = 0, exclude_pinned = False\<rparr> = Inr r \<longrightarrow>
      snd (iter_dialogs n svc (Some 0) od oid opeer ign (Some t) cpts) = Returned \<and>
      sent (fst (iter_dialogs n svc (Some 0) od oid opeer ign (Some t) cpts)) =
        [\<lparr>offset_date = od, offset_id = oid, offset_peer = opeer, req_limit = 1,
          req_hash = 0, exclude_pinned = False\<rparr>] \<and>
      total (fst (iter_dialogs n svc (Some 0) od oid opeer ign (Some t) cpts)) = Some (page_total r) \<and>
      emitted (fst (iter_dialogs n svc (Some 0) od oid opeer ign (Some t) cpts)) = [])"
  by (simp add: iter_dialogs_def init_state_def GetDialogsRequest_def Let_def)

theorem limit_zero_probe_witness:
  "paged [counted_page] 0 \<lparr>offset_date = None, offset_id = 0, offset_peer = InputPeerEmpty,
      req_limit = 1, req_hash = 0, exclude_pinned = False\<rparr> = Inr counted_page \<and>
   snd (iter_dialogs 5 (paged [counted_page]) (Some 0) None 0 InputPeerEmpty False (Some 0)
      Map.empty) = Returned \<and>
   map req_limit (sent (fst (iter_dialogs 5 (paged [counted_page]) (Some 0) None 0
      InputPeerEmpty False (Some 0) Map.empty))) = [1] \<and>
   total (fst (iter_dialogs 5 (paged [counted_page]) (Some 0) None 0 InputPeerEmpty False
      (Some 0) Map.empty)) = Some 500 \<and>
   emitted (fst (iter_dialogs 5 (paged [counted_page]) (Some 0) None 0 InputPeerEmpty False
      (Some 0) Map.empty)) = [] \<and>
   sent (fst (iter_dialogs 5 (paged [counted_page]) (Some 0) None 0 InputPeerEmpty False None
      Map.empty)) = []"
proof -
  have h: "paged [counted_page] 0 \<lparr>offset_date = None, offset_id = 0,
      offset_peer = InputPeerEmpty, req_limit = 1, req_hash = 0, exclude_pinned = False\<rparr>
      = Inr counted_page"
    by (simp add: paged_def)
  have t: "page_total counted_page = 500"
    by (simp add: page_total_def counted_page_def)
  from limit_zero_probe [of 5 "paged [counted_page]" None 0 InputPeerEmpty False Map.empty
      counted_page 0]
  show ?thesis using h t by simp
qed

text \<open>
  Claim C3, as stated, fails: with \<open>limit = 1\<close> and \<open>ignore_migrated\<close> set, a first full
  slice page whose only dialog is a migrated chat ends the enumeration after one request.
  No record was yielded, the cursor had advanced and the service had a further page.
\<close>

theorem migrated_dialog_uses_limit:
  "snd (iter_dialogs 5 (paged migrated_pages) (Some 1) None 0 InputPeerEmpty True None Map.empty) = Returned \<and>
   emitted (fst (iter_dialogs 5 (paged migrated_pages) (Some 1) None 0 InputPeerEmpty True None Map.empty)) = [] \<and>
   map req_limit (sent (fst (iter_dialogs 5 (paged migrated_pages) (Some 1) None 0 InputPeerEmpty True None Map.empty))) = [1] \<and>
   offset_id (req (fst (iter_dialogs 5 (paged migrated_pages) (Some 1) None 0 InputPeerEmpty True None Map.empty))) = 10 \<and>
   length (dialogs (migrated_pages ! 0)) = 1 \<and> is_slice (migrated_pages ! 0)"
proof -
  have "snd (iter_dialogs 5 (paged migrated_pages) (Some 1) None 0 InputPeerEmpty True None Map.empty) = Returned"
    by code_simp
  moreover have "emitted (fst (iter_dialogs 5 (paged migrated_pages) (Some 1) None 0 InputPeerEmpty True None Map.empty)) = []"
    by code_simp
  moreover have "map req_limit (sent (fst (iter_dialogs 5 (paged migrated_pages) (Some 1) None 0 InputPeerEmpty True None Map.empty))) = [1]"
    by code_simp
  moreover have "offset_id (req (fst (iter_dialogs 5 (paged migrated_pages) (Some 1) None 0 InputPeerEmpty True None Map.empty))) = 10"
    by code_simp
  moreover have "length (dialogs (migrated_pages ! 0)) = 1 \<and> is_slice (migrated_pages ! 0)"
    by (simp add: migrated_pages_def)
  ultimately show ?thesis by simp
qed

text \<open>
  Claim C3, amended. With a finite limit the loop runs exactly while the size of the Dedup
  Set is below the limit. If it is not below, the loop returns at once without a request.
  If it is below, the next request asks for \<open>min (limit - size of the Dedup Set) 100\<close>
  dialogs; and when the page is processed without error and no termination condition
  holds (the page is full, is a slice, has a last message and the entity of its last
  dialog, and the id of its last message differs from the \<open>offset_id\<close> of the request),
  the loop goes on from the state after the page with the next cursor. The records yielded
  are never more than the size of the Dedup Set.
\<close>

theorem loop_counts_dedup_set:
  "(\<not> int (fcard (seen s)) < l \<longrightarrow> loop n svc (Some l) ign s = (s, Returned)) \<and>
   (int (fcard (seen s)) < l \<longrightarrow>
      take (Suc (length (sent s))) (sent (fst (loop (Suc n) svc (Some l) ign s))) =
        sent s @ [(req s)\<lparr>req_limit := min (l - int (fcard (seen s))) 100\<rparr>]) \<and>
   (int (fcard (seen s)) < l \<and>
    svc (length (sent s)) (next_request (Some l) s) = Inr r \<and>
    after_page (Some l) ign r
      (s\<lparr>req := next_request (Some l) s, sent := sent s @ [next_request (Some l) s]\<rparr>)
      = (s2, None) \<and>
    \<not> int (length (dialogs r)) < page_size (Some l) (fcard (seen s)) \<and> is_slice r \<and>
    messages r \<noteq> [] \<and>
    entity_table (users r @ chats r) (peer (last (truncate_dialogs (Some l) (dialogs r)))) = Some e \<and>
    msg_id (last (messages r)) \<noteq> offset_id (req s) \<longrightarrow>
      loop (Suc n) svc (Some l) ign s =
        loop n svc (Some l) ign
          (s2\<lparr>req := next_cursor (next_request (Some l) s) (last (messages r)) e\<rparr>)) \<and>
   length (emitted (fst (iter_dialogs n svc (Some l) od oid opeer ign tot cpts)))
     \<le> fcard (seen (fst (iter_dialogs n svc (Some l) od oid opeer ign tot cpts)))"
proof -
  have a: "\<not> int (fcard (seen s)) < l \<Longrightarrow> loop n svc (Some l) ign s = (s, Returned)"
    by (cases n) simp_all
  have b: "int (fcard (seen s)) < l \<Longrightarrow>
      take (Suc (length (sent s))) (sent (fst (loop (Suc n) svc (Some l) ign s))) =
        sent s @ [(req s)\<lparr>req_limit := min (l - int (fcard (seen s))) 100\<rparr>]"
    using loop_first_request [of s "Some l" n svc ign] by (simp add: next_request_def)
  have c: "loop (Suc n) svc (Some l) ign s =
        loop n svc (Some l) ign
          (s2\<lparr>req := next_cursor (next_request (Some l) s) (last (messages r)) e\<rparr>)"
    if "int (fcard (seen s)) < l"
      and "svc (length (sent s)) (next_request (Some l) s) = Inr r"
      and "after_page (Some l) ign r
        (s\<lparr>req := next_request (Some l) s, sent := sent s @ [next_request (Some l) s]\<rparr>)
        = (s2, None)"
      and "\<not> int (length (dialogs r)) < page_size (Some l) (fcard (seen s))" and "is_slice r"
      and "messages r \<noteq> []"
      and "entity_table (users r @ chats r) (peer (last (truncate_dialogs (Some l) (dialogs r)))) = Some e"
      and "msg_id (last (messages r)) \<noteq> offset_id (req s)"
  proof -
    from that(1) have g: "below_limit (fcard (seen s)) (Some l)" by simp
    from g that(2-8) show ?thesis by (rule loop_continues)
  qed
  have d: "length (emitted (fst (iter_dialogs n svc (Some l) od oid opeer ign tot cpts)))
     \<le> fcard (seen (fst (iter_dialogs n svc (Some l) od oid opeer ign tot cpts)))"
    by (rule dedup_inv_length) (rule iter_dialogs_inv)
  from a b c d show ?thesis by blast
qed

theorem loop_counts_dedup_set_witness:
  "int (fcard (seen start)) < 3 \<and>
   take 1 (sent (fst (loop 5 (paged pinned_pages) (Some 3) False start))) =
     [(req start)\<lparr>req_limit := 3\<rparr>] \<and>
   \<not> int (fcard (seen seen_start)) < 1 \<and>
   loop 5 (paged pinned_pages) (Some 1) False seen_start = (seen_start, Returned) \<and>
   paged pinned_pages (length (sent start)) (next_request (Some 3) start) = Inr repeat_page \<and>
   \<not> int (length (dialogs repeat_page)) < page_size (Some 3) (fcard (seen start)) \<and>
   is_slice repeat_page \<and> messages repeat_page \<noteq> [] \<and>
   msg_id (last (messages repeat_page)) \<noteq> offset_id (req start) \<and>
   loop 5 (paged pinned_pages) (Some 3) False start =
     loop 4 (paged pinned_pages) (Some 3) False
       ((fst (after_page (Some 3) False repeat_page
          (start\<lparr>req := next_request (Some 3) start,
                 sent := sent start @ [next_request (Some 3) start]\<rparr>)))
        \<lparr>req := next_cursor (next_request (Some 3) start) (last (messages repeat_page)) (usr 1)\<rparr>) \<and>
   fcard (seen (fst (after_page (Some 3) False repeat_page
          (start\<lparr>req := next_request (Some 3) start,
                 sent := sent start @ [next_request (Some 3) start]\<rparr>)))) = 2 \<and>
   map req_limit (sent (fst (loop 5 (paged pinned_pages) (Some 3) False start))) = [3, 1, 1] \<and>
   snd (loop 5 (paged pinned_pages) (Some 3) False start) = Returned \<and>
   length (emitted (fst (iter_dialogs 4 (paged pinned_pages) (Some 3) None 0 InputPeerEmpty
      False None Map.empty)))
     \<le> fcard (seen (fst (iter_dialogs 4 (paged pinned_pages) (Some 3) None 0 InputPeerEmpty
      False None Map.empty)))"
proof -
  let ?s1 = "start\<lparr>req := next_request (Some 3) start,
    sent := sent start @ [next_request (Some 3) start]\<rparr>"
  let ?s2 = "fst (after_page (Some 3) False repeat_page ?s1)"
  have a: "int (fcard (seen start)) < 3" by (simp add: start_fields)
  have b: "\<not> int (fcard (seen seen_start)) < 1" by (simp add: seen_start_fields fcard_finsert_if)
  have h2: "paged pinned_pages (length (sent start)) (next_request (Some 3) start) = Inr repeat_page"
    by (simp add: paged_def pinned_pages_def repeat_page_def start_fields)
  have "snd (after_page (Some 3) False repeat_page ?s1) = None"
    by code_simp
  then have h3: "after_page (Some 3) False repeat_page ?s1 = (?s2, None)"
    by (rule after_page_pair)
  have h4: "\<not> int (length (dialogs repeat_page)) < page_size (Some 3) (fcard (seen start))"
    by (simp add: repeat_page_fields start_fields)
  note h5 = repeat_page_fields(1) and h6 = repeat_page_fields(2) and h7 = repeat_page_fields(5)
  have h8: "msg_id (last (messages repeat_page)) \<noteq> offset_id (req start)"
    by (simp add: repeat_page_fields start_fields GetDialogsRequest_def)
  have e1: "fcard (seen ?s2) = 2" by code_simp
  have e2: "map req_limit (sent (fst (loop 5 (paged pinned_pages) (Some 3) False start))) = [3, 1, 1]"
    by code_simp
  have e3: "snd (loop 5 (paged pinned_pages) (Some 3) False start) = Returned"
    by code_simp
  from loop_counts_dedup_set [where s = start and l = 3 and n = 4 and svc = "paged pinned_pages"
      and ign = False and od = None and oid = 0 and opeer = InputPeerEmpty and tot = None
      and cpts = Map.empty and r = repeat_page and e = "usr 1" and ?s2.0 = ?s2]
    a h2 h3 h4 h5 h6 h7 h8
  have c: "take (Suc (length (sent start))) (sent (fst (loop (Suc 4) (paged pinned_pages) (Some 3) False start))) =
        sent start @ [(req start)\<lparr>req_limit := min (3 - int (fcard (seen start))) 100\<rparr>]"
    and d: "loop (Suc 4) (paged pinned_pages) (Some 3) False start =
      loop 4 (paged pinned_pages) (Some 3) False
        (?s2\<lparr>req := next_cursor (next_request (Some 3) start) (last (messages repeat_page)) (usr 1)\<rparr>)"
    and f: "length (emitted (fst (iter_dialogs 4 (paged pinned_pages) (Some 3) None 0 InputPeerEmpty
      False None Map.empty)))
     \<le> fcard (seen (fst (iter_dialogs 4 (paged pinned_pages) (Some 3) None 0 InputPeerEmpty
      False None Map.empty)))"
    by blast+
  from loop_counts_dedup_set [where s = seen_start and l = 1 and n = 5
      and svc = "paged pinned_pages" and ign = False] b
  have g: "loop 5 (paged pinned_pages) (Some 1) False seen_start = (seen_start, Returned)"
    by blast
  have n5: "Suc 4 = 5" by simp
  from c have c': "take 1 (sent (fst (loop 5 (paged pinned_pages) (Some 3) False start))) =
     [(req start)\<lparr>req_limit := 3\<rparr>]"
    by (simp add: n5 start_fields)
  from d have d': "loop 5 (paged pinned_pages) (Some 3) False start =
      loop 4 (paged pinned_pages) (Some 3) False
        (?s2\<lparr>req := next_cursor (next_request (Some 3) start) (last (messages repeat_page)) (usr 1)\<rparr>)"
    by (simp only: n5)
  show ?thesis
    using a b h2 h4 h5 h6 h8 c' d' e1 e2 e3 f g by blast
qed

subsection \<open>The total\<close>











subsection \<open>The pinned-overflow guard\<close>

lemma entity_table_snoc:
  "entity_table (xs @ [x]) = (entity_table xs)(ent_peer_id x \<mapsto> x)"
  by (simp add: entity_table_def)

lemma entity_table_resolves:
  "k \<in> ent_peer_id ` set xs \<Longrightarrow> entity_table xs k \<noteq> None"
proof (induction xs rule: rev_induct)
  case Nil
  then show ?case by simp
next
  case (snoc x xs)
  then show ?case by (auto simp: entity_table_snoc)
qed

lemma process_dialog_fresh:
  assumes "peer d |\<notin>| seen s" and "entities (peer d) = Some e"
  shows "process_dialog False entities msgs d s =
         ((record_pts \<lparr>cd_dialog = d, cd_entity = e, cd_message = msgs (top_message d)\<rparr>
             (s\<lparr>seen := finsert (peer d) (seen s)\<rparr>))
          \<lparr>emitted := emitted s @ [\<lparr>cd_dialog = d, cd_entity = e, cd_message = msgs (top_message d)\<rparr>]\<rparr>,
          None)"
  using assms by (simp add: process_dialog_def custom_Dialog_def Let_def)

lemma process_dialogs_fresh:
  "distinct (map peer ds) \<Longrightarrow> \<forall>d \<in> set ds. peer d |\<notin>| seen s \<Longrightarrow>
   \<forall>d \<in> set ds. entities (peer d) \<noteq> None \<Longrightarrow>
   snd (process_dialogs False entities msgs ds s) = None \<and>
   map cd_dialog (emitted (fst (process_dialogs False entities msgs ds s))) =
     map cd_dialog (emitted s) @ ds"
proof (induction ds arbitrary: s)
  case Nil
  show ?case by simp
next
  case (Cons d ds)
  from Cons.prems(3) obtain e where e: "entities (peer d) = Some e" by auto
  from Cons.prems(2) have u: "peer d |\<notin>| seen s" by simp
  let ?cd = "\<lparr>cd_dialog = d, cd_entity = e, cd_message = msgs (top_message d)\<rparr>"
  let ?s' = "(record_pts ?cd (s\<lparr>seen := finsert (peer d) (seen s)\<rparr>))\<lparr>emitted := emitted s @ [?cd]\<rparr>"
  from u e have p: "process_dialog False entities msgs d s = (?s', None)"
    by (rule process_dialog_fresh)
  have se: "seen ?s' = finsert (peer d) (seen s)" by simp
  have em: "emitted ?s' = emitted s @ [?cd]" by simp
  from Cons.prems(1) have d: "distinct (map peer ds)" and nd: "peer d \<notin> peer ` set ds" by simp_all
  have f: "\<forall>x \<in> set ds. peer x |\<notin>| seen ?s'"
  proof
    fix x assume x: "x \<in> set ds"
    with nd have "peer x \<noteq> peer d" by (metis imageI)
    moreover from Cons.prems(2) x have "peer x |\<notin>| seen s" by simp
    ultimately show "peer x |\<notin>| seen ?s'" unfolding se by simp
  qed
  from Cons.prems(3) have r: "\<forall>x \<in> set ds. entities (peer x) \<noteq> None" by simp
  note ih = Cons.IH [OF d f r]
  have step: "process_dialogs False entities msgs (d # ds) s =
      process_dialogs False entities msgs ds ?s'"
    unfolding process_dialogs.simps p by simp
  from ih have "snd (process_dialogs False entities msgs (d # ds) s) = None"
    unfolding step by simp
  moreover from ih have "map cd_dialog (emitted (fst (process_dialogs False entities msgs (d # ds) s))) =
      map cd_dialog (emitted s) @ d # ds"
    unfolding step em by simp
  ultimately show ?case by simp
qed

lemma numbered_page_fields:
  "length (dialogs (numbered_page n)) = n" "\<not> is_slice (numbered_page n)"
  "distinct (map peer (dialogs (numbered_page n)))"
  "\<forall>d \<in> set (dialogs (numbered_page n)).
     entity_table (users (numbered_page n) @ chats (numbered_page n)) (peer d) \<noteq> None"
proof -
  show "length (dialogs (numbered_page n)) = n" by (simp add: numbered_page_def)
  show "\<not> is_slice (numbered_page n)" by (simp add: numbered_page_def)
  have "map peer (dialogs (numbered_page n)) = map int [0..<n]"
    by (simp add: numbered_page_def dlg_def comp_def)
  then show "distinct (map peer (dialogs (numbered_page n)))"
    by (simp add: distinct_map inj_on_def)
  show "\<forall>d \<in> set (dialogs (numbered_page n)).
     entity_table (users (numbered_page n) @ chats (numbered_page n)) (peer d) \<noteq> None"
  proof
    fix d assume "d \<in> set (dialogs (numbered_page n))"
    then obtain k where k: "k < n" "d = dlg (int k)" by (auto simp: numbered_page_def)
    have "ent_peer_id (usr (int k)) = peer d" using k by (simp add: usr_def dlg_def)
    moreover have "usr (int k) \<in> set (users (numbered_page n) @ chats (numbered_page n))"
      using k by (simp add: numbered_page_def)
    ultimately have "peer d \<in> ent_peer_id ` set (users (numbered_page n) @ chats (numbered_page n))"
      by (metis imageI)
    then show "entity_table (users (numbered_page n) @ chats (numbered_page n)) (peer d) \<noteq> None"
      by (rule entity_table_resolves)
  qed
qed

lemma truncate_is_take: "\<exists>k. truncate_dialogs limit ds = take k ds"
proof (cases limit)
  case None
  have "truncate_dialogs None ds = take (length ds) ds" by simp
  with None show ?thesis by blast
next
  case (Some l)
  show ?thesis
  proof (cases "int (length ds) > l")
    case False
    with Some have "truncate_dialogs limit ds = take (length ds) ds" by simp
    then show ?thesis by blast
  next
    case True
    show ?thesis
    proof (cases "0 \<le> l")
      case True
      with \<open>int (length ds) > l\<close> Some have "truncate_dialogs limit ds = take (nat l) ds" by simp
      then show ?thesis by blast
    next
      case False
      with \<open>int (length ds) > l\<close> Some
      have "truncate_dialogs limit ds = take (nat (int (length ds) + l)) ds" by simp
      then show ?thesis by blast
    qed
  qed
qed

lemma numbered_page_limited_run:
  assumes "below_limit 0 limit"
  shows "snd (iter_dialogs 1 (always (numbered_page n)) limit None 0 InputPeerEmpty False None
           Map.empty) = Returned \<and>
         length (emitted (fst (iter_dialogs 1 (always (numbered_page n)) limit None 0
           InputPeerEmpty False None Map.empty))) =
           length (truncate_dialogs limit (dialogs (numbered_page n))) \<and>
         sent (fst (iter_dialogs 1 (always (numbered_page n)) limit None 0 InputPeerEmpty
           False None Map.empty)) = [next_request limit start]"
proof -
  let ?pg = "numbered_page n"
  let ?ds = "truncate_dialogs limit (dialogs ?pg)"
  let ?s1 = "start\<lparr>req := next_request limit start, sent := sent start @ [next_request limit start]\<rparr>"
  let ?ap = "after_page limit False ?pg ?s1"
  from assms have z: "limit \<noteq> Some 0" by auto
  then have i: "iter_dialogs 1 (always ?pg) limit None 0 InputPeerEmpty False None Map.empty =
      loop (Suc 0) (always ?pg) limit False start"
    by (simp add: iter_dialogs_def start_def)
  obtain k where k: "?ds = take k (dialogs ?pg)" using truncate_is_take by blast
  have d: "distinct (map peer ?ds)"
    unfolding k using numbered_page_fields(3) [of n] by (simp add: take_map [symmetric])
  have sub: "set ?ds \<subseteq> set (dialogs ?pg)" unfolding k by (rule set_take_subset)
  have f: "\<forall>d \<in> set ?ds. peer d |\<notin>| seen (store_total ?pg ?s1)"
    by (simp add: start_fields)
  have r: "\<forall>d \<in> set ?ds. entity_table (users ?pg @ chats ?pg) (peer d) \<noteq> None"
    using sub numbered_page_fields(4) [of n] by blast
  have ap_eq: "?ap = process_dialogs False (entity_table (users ?pg @ chats ?pg))
      (message_table (messages ?pg)) ?ds (store_total ?pg ?s1)"
    by (simp add: after_page_def)
  from process_dialogs_fresh [OF d f r, where msgs = "message_table (messages ?pg)"]
  have sn: "snd ?ap = None"
    and em: "map cd_dialog (emitted (fst ?ap)) = map cd_dialog (emitted (store_total ?pg ?s1)) @ ?ds"
    unfolding ap_eq by simp_all
  from sn have ap: "?ap = (fst ?ap, None)" by (rule after_page_pair)
  have sv: "always ?pg (length (sent start)) (next_request limit start) = Inr ?pg"
    by (rule always_fields)
  have "int (length ?ds) < page_size limit (fcard (seen start)) \<or> \<not> is_slice ?pg"
    by (simp add: numbered_page_fields(2))
  with sv ap have b: "body (always ?pg) limit False start = (fst ?ap, Break)"
    by (rule body_break)
  from assms have g: "below_limit (fcard (seen start)) limit" by (simp add: start_fields)
  from g b have l: "loop (Suc 0) (always ?pg) limit False start = (fst ?ap, Returned)"
    by simp
  from after_page_keeps [OF ap] have se: "sent (fst ?ap) = [next_request limit start]"
    by (simp add: start_fields)
  have "length (map cd_dialog (emitted (fst ?ap))) = length ?ds"
    unfolding em by (simp add: start_fields)
  then have le: "length (emitted (fst ?ap)) = length ?ds" by simp
  show ?thesis unfolding i l using se le by simp
qed

text \<open>
  Claim C2, as stated, fails: with an unbounded limit the first request asks for 100
  dialogs, and a page of 105 dialogs is not truncated; all 105 are processed and
  yielded. Line 92 compares the page with \<open>limit\<close>, not with \<open>req.limit\<close>.
\<close>

theorem unbounded_page_not_truncated:
  "page_size None (fcard (seen start)) = 100 \<and>
   map req_limit (sent (fst (iter_dialogs 1 (always (numbered_page 105)) None None 0
      InputPeerEmpty False None Map.empty))) = [100] \<and>
   length (dialogs (numbered_page 105)) = 105 \<and>
   snd (iter_dialogs 1 (always (numbered_page 105)) None None 0 InputPeerEmpty False None
      Map.empty) = Returned \<and>
   length (emitted (fst (iter_dialogs 1 (always (numbered_page 105)) None None 0 InputPeerEmpty
      False None Map.empty))) = 105"
proof -
  have g: "below_limit 0 None" by simp
  note r = numbered_page_limited_run [OF g, of 105]
  have a: "page_size None (fcard (seen start)) = 100" by simp
  have b: "map req_limit [next_request None start] = [100]" by simp
  have t: "length (truncate_dialogs None (dialogs (numbered_page 105))) = 105"
    by (simp add: numbered_page_fields(1))
  from r have c: "sent (fst (iter_dialogs 1 (always (numbered_page 105)) None None 0
      InputPeerEmpty False None Map.empty)) = [next_request None start]" by blast
  from r a b t numbered_page_fields(1) [of 105] show ?thesis unfolding c by metis
qed

text \<open>
  Claim C2, amended. In a state in which the loop runs, a page with more dialogs than the
  limit is processed as its first \<open>limit\<close> dialogs, which are exactly \<open>limit\<close> many;
  with an unbounded limit every page is processed whole. On a first request with
  a limit of at most 100 the page size asked for is the limit.
\<close>

theorem page_truncated_to_limit:
  "(below_limit (fcard (seen s)) (Some l) \<and> l < int (length (dialogs r)) \<longrightarrow>
      after_page (Some l) ign r s =
        process_dialogs ign (entity_table (users r @ chats r)) (message_table (messages r))
          (take (nat l) (dialogs r)) (store_total r s) \<and>
      int (length (take (nat l) (dialogs r))) = l) \<and>
   after_page None ign r s =
     process_dialogs ign (entity_table (users r @ chats r)) (message_table (messages r))
       (dialogs r) (store_total r s) \<and>
   (seen s = {||} \<and> 0 < l \<and> l \<le> 100 \<longrightarrow> page_size (Some l) (fcard (seen s)) = l)"
  by (auto simp: after_page_def)

theorem page_truncated_to_limit_witness:
  "below_limit (fcard (seen start)) (Some 100) \<and>
   (100::int) < int (length (dialogs (numbered_page 105))) \<and>
   seen start = {||} \<and>
   page_size (Some 100) (fcard (seen start)) = 100 \<and>
   after_page (Some 100) False (numbered_page 105) start =
     process_dialogs False
       (entity_table (users (numbered_page 105) @ chats (numbered_page 105)))
       (message_table (messages (numbered_page 105)))
       (take 100 (dialogs (numbered_page 105))) (store_total (numbered_page 105) start) \<and>
   length (take 100 (dialogs (numbered_page 105))) = 100 \<and>
   snd (iter_dialogs 1 (always (numbered_page 105)) (Some 100) None 0 InputPeerEmpty False None
     Map.empty) = Returned \<and>
   length (emitted (fst (iter_dialogs 1 (always (numbered_page 105)) (Some 100) None 0
     InputPeerEmpty False None Map.empty))) = 100 \<and>
   below_limit (fcard (seen seen_start)) (Some 2) \<and>
   (2::int) < int (length (dialogs long_page)) \<and>
   page_size (Some 2) (fcard (seen seen_start)) = 1 \<and>
   after_page (Some 2) False long_page seen_start =
     process_dialogs False (entity_table (users long_page @ chats long_page))
       (message_table (messages long_page)) (take 2 (dialogs long_page))
       (store_total long_page seen_start) \<and>
   map peer (take 2 (dialogs long_page)) = [1, 2] \<and>
   fcard (seen (fst (after_page (Some 2) False long_page seen_start))) = 2"
proof -
  have h1: "below_limit (fcard (seen start)) (Some 100)" by (simp add: start_fields)
  have h2: "(100::int) < int (length (dialogs (numbered_page 105)))"
    by (simp add: numbered_page_fields(1))
  have h3: "seen start = {||}" by (simp add: start_fields)
  have n: "nat 100 = 100" by simp
  from page_truncated_to_limit [where s = start and l = 100 and r = "numbered_page 105"
      and ign = False] h1 h2 h3
  have a: "after_page (Some 100) False (numbered_page 105) start =
     process_dialogs False
       (entity_table (users (numbered_page 105) @ chats (numbered_page 105)))
       (message_table (messages (numbered_page 105)))
       (take (nat 100) (dialogs (numbered_page 105))) (store_total (numbered_page 105) start)"
    and b: "int (length (take (nat 100) (dialogs (numbered_page 105)))) = 100"
    and c: "page_size (Some 100) (fcard (seen start)) = 100"
    by simp_all
  have g: "below_limit 0 (Some 100)" by simp
  have t: "truncate_dialogs (Some 100) (dialogs (numbered_page 105)) =
      take (nat 100) (dialogs (numbered_page 105))"
    using h2 by simp
  from numbered_page_limited_run [OF g, of 105]
  have d: "snd (iter_dialogs 1 (always (numbered_page 105)) (Some 100) None 0 InputPeerEmpty
      False None Map.empty) = Returned"
    and e: "length (emitted (fst (iter_dialogs 1 (always (numbered_page 105)) (Some 100) None 0
      InputPeerEmpty False None Map.empty))) = length (take (nat 100) (dialogs (numbered_page 105)))"
    unfolding t by blast+
  from b have b': "length (take 100 (dialogs (numbered_page 105))) = 100"
    unfolding n by simp
  from a have a': "after_page (Some 100) False (numbered_page 105) start =
     process_dialogs False
       (entity_table (users (numbered_page 105) @ chats (numbered_page 105)))
       (message_table (messages (numbered_page 105)))
       (take 100 (dialogs (numbered_page 105))) (store_total (numbered_page 105) start)"
    unfolding n .
  from e b' have e': "length (emitted (fst (iter_dialogs 1 (always (numbered_page 105)) (Some 100)
      None 0 InputPeerEmpty False None Map.empty))) = 100"
    unfolding n by simp
  have k1: "below_limit (fcard (seen seen_start)) (Some 2)"
    by (simp add: seen_start_fields fcard_finsert_if)
  have k2: "(2::int) < int (length (dialogs long_page))"
    by (simp add: long_page_def pg_def)
  have k3: "page_size (Some 2) (fcard (seen seen_start)) = 1"
    by (simp add: seen_start_fields fcard_finsert_if)
  have n2: "nat 2 = 2" by simp
  from page_truncated_to_limit [where s = seen_start and l = 2 and r = long_page
      and ign = False] k1 k2
  have k4: "after_page (Some 2) False long_page seen_start =
     process_dialogs False (entity_table (users long_page @ chats long_page))
       (message_table (messages long_page)) (take (nat 2) (dialogs long_page))
       (store_total long_page seen_start)"
    by simp
  then have k4': "after_page (Some 2) False long_page seen_start =
     process_dialogs False (entity_table (users long_page @ chats long_page))
       (message_table (messages long_page)) (take 2 (dialogs long_page))
       (store_total long_page seen_start)"
    unfolding n2 .
  have k5: "map peer (take 2 (dialogs long_page)) = [1, 2]"
    by (simp add: long_page_def pg_def dlg_def)
  have k6: "fcard (seen (fst (after_page (Some 2) False long_page seen_start))) = 2"
    by code_simp
  from h1 h2 h3 c a' b' d e' k1 k2 k3 k4' k5 k6 show ?thesis by blast
qed

end
